theory Spec2Isabelle
  imports Main
begin

section \<open>Values, snapshots and remote operations\<close>

text \<open>
  JavaScript values as far as the library looks at them: plain data, and objects that
  carry a \<^verbatim>\<open>toJSON\<close> method (\<open>ToJSON j\<close> is such an object, its method returning \<open>j\<close>).
\<close>

datatype jsval = Null | Bool bool | Num int | Str string | ToJSON jsval

text \<open>
  A Firebase data snapshot: \<^verbatim>\<open>snapshot.name()\<close>, \<^verbatim>\<open>snapshot.val()\<close>, the names of its
  children (for \<^verbatim>\<open>hasChildren()\<close> and \<^verbatim>\<open>hasChild(n)\<close>) and \<^verbatim>\<open>snapshot.ref()\<close>.
\<close>

record snapshot =
  sname :: string
  sval :: jsval
  childNames :: "string list"
  location :: string

definition hasChildren :: "snapshot \<Rightarrow> bool" where
  "hasChildren snap = (childNames snap \<noteq> [])"

definition hasChild :: "snapshot \<Rightarrow> string \<Rightarrow> bool" where
  "hasChild snap n = (n \<in> set (childNames snap))"

text \<open>
  The \<^verbatim>\<open>ref\<close> of a proxy is a location reference or a query on one; \<^verbatim>\<open>null\<close> is \<open>None\<close>.
\<close>

datatype fbref = Location string | Query string

text \<open>
  The calls a proxy makes on its writable reference \<open>r\<close>:
  \<^verbatim>\<open>r.child(n).remove()\<close>, \<^verbatim>\<open>r.push().set(v)\<close> and \<^verbatim>\<open>r.child(n).set(v)\<close>.
\<close>

datatype remote_op =
    Remove string string
  | PushSet string jsval
  | SetChild string string jsval

text \<open>
  The exceptions: \<open>NotBound\<close> is the \<^verbatim>\<open>Error\<close> a proxy throws when its \<^verbatim>\<open>ref\<close> is
  missing, \<open>OutOfRange\<close> the one Ember's \<^verbatim>\<open>insertAt\<close> and \<^verbatim>\<open>removeAt\<close> throw, and
  \<open>TypeError\<close> the call of a method on \<^verbatim>\<open>undefined\<close>.
\<close>

datatype error = NotBound | OutOfRange | TypeError

text \<open>
  \<^verbatim>\<open>getFirebaseValue(object)\<close>:
  \<^verbatim>\<open>object && isFunction(object.toJSON) ? object.toJSON() : object\<close>.
\<close>

fun getFirebaseValue :: "jsval \<Rightarrow> jsval" where
  "getFirebaseValue (ToJSON j) = j"
| "getFirebaseValue v = v"

text \<open>The last version's \<^verbatim>\<open>getSnapshotValue(snapshot)\<close> is \<^verbatim>\<open>snapshot.val()\<close>.\<close>

definition getSnapshotValue :: "snapshot \<Rightarrow> jsval" where
  "getSnapshotValue snap = sval snap"

text \<open>The four child events of a location, each with its snapshot.\<close>

datatype child_event =
    ChildAdded snapshot "string option"
  | ChildChanged snapshot "string option"
  | ChildRemoved snapshot
  | ChildMoved snapshot "string option"

fun eventName :: "child_event \<Rightarrow> string" where
  "eventName (ChildAdded snap p) = sname snap"
| "eventName (ChildChanged snap p) = sname snap"
| "eventName (ChildRemoved snap) = sname snap"
| "eventName (ChildMoved snap p) = sname snap"

section \<open>JavaScript arrays\<close>

text \<open>\<^verbatim>\<open>xs.indexOf(x)\<close>: the first position of \<open>x\<close>, or \<open>-1\<close>.\<close>

fun indexOf :: "'a list \<Rightarrow> 'a \<Rightarrow> int" where
  "indexOf [] x = - 1"
| "indexOf (y # ys) x =
     (if y = x then 0
      else (let r = indexOf ys x in if r = - 1 then - 1 else r + 1))"

text \<open>
  \<^verbatim>\<open>xs.splice(i, n, items...)\<close> for \<open>i \<ge> 0\<close> and \<open>n \<ge> 0\<close>, as the array it leaves behind:
  a start beyond the end appends. Ember's \<^verbatim>\<open>replace(i, n, items)\<close> on a native array
  is this call.
\<close>

definition splice_js :: "nat \<Rightarrow> nat \<Rightarrow> 'a list \<Rightarrow> 'a list \<Rightarrow> 'a list" where
  "splice_js i n items xs = take i xs @ items @ drop (i + n) xs"

text \<open>
  \<^verbatim>\<open>xs[i] = v\<close> for \<open>i \<le> length xs\<close>: an existing slot is overwritten, the slot just past
  the end extends the array by one. (A larger index would leave holes; the callers never
  produce one, see \<open>indexAfter_le_length\<close>.)
\<close>

definition assign :: "'a list \<Rightarrow> nat \<Rightarrow> 'a \<Rightarrow> 'a list" where
  "assign xs i v = (if i < length xs then xs[i := v] else xs @ [v])"

text \<open>
  \<^verbatim>\<open>xs.slice(b, e)\<close>: negative arguments count from the end, both are clamped to the
  array.
\<close>

definition clampIndex :: "int \<Rightarrow> nat \<Rightarrow> nat" where
  "clampIndex k len =
     (if k < 0 then nat (max (int len + k) 0) else nat (min k (int len)))"

definition slice :: "'a list \<Rightarrow> int \<Rightarrow> int \<Rightarrow> 'a list" where
  "slice xs b e =
     (let from = clampIndex b (length xs); upto = clampIndex e (length xs)
      in take (upto - from) (drop from xs))"

section \<open>Firebase.List\<close>

text \<open>
  A list proxy: its \<^verbatim>\<open>ref\<close>, its \<^verbatim>\<open>content\<close> array, the parallel \<^verbatim>\<open>_names\<close> array, the
  property names defined on the proxy object itself (what \<^verbatim>\<open>name in this\<close> tests), and the
  remote operations issued so far.
\<close>

record 'v proxy =
  ref :: "fbref option"
  content :: "'v list"
  names :: "string list"
  members :: "string set"
  ops :: "remote_op list"

text \<open>\<^verbatim>\<open>Firebase.List.create({ ref: r })\<close>: \<^verbatim>\<open>init\<close> runs \<^verbatim>\<open>_resetContent\<close>.\<close>

definition List_create :: "fbref option \<Rightarrow> string set \<Rightarrow> jsval proxy" where
  "List_create r K = \<lparr>ref = r, content = [], names = [], members = K, ops = []\<rparr>"

text \<open>\<^verbatim>\<open>baseRef\<close>: \<^verbatim>\<open>isFirebaseQuery(ref) ? ref.ref() : ref\<close>.\<close>

definition baseRef :: "'v proxy \<Rightarrow> string option" where
  "baseRef s =
     (case ref s of None \<Rightarrow> None | Some (Location l) \<Rightarrow> Some l | Some (Query l) \<Rightarrow> Some l)"

text \<open>
  \<^verbatim>\<open>createValueFromSnapshot\<close>:
  \<^verbatim>\<open>(snapshot.name() in this) ? null : getSnapshotValue(snapshot)\<close>.
\<close>

definition createValueFromSnapshot :: "jsval proxy \<Rightarrow> snapshot \<Rightarrow> jsval" where
  "createValueFromSnapshot s snap =
     (if sname snap \<in> members s then Null else getSnapshotValue snap)"

text \<open>
  \<^verbatim>\<open>_indexAfter(childName)\<close>:
  \<^verbatim>\<open>childName ? this._names.indexOf(childName) + 1 : 0\<close>. The test is JavaScript
  truthiness: \<^verbatim>\<open>null\<close> and the empty string are both falsy.
\<close>

definition indexAfter :: "string list \<Rightarrow> string option \<Rightarrow> int" where
  "indexAfter ns childName =
     (case childName of
        None \<Rightarrow> 0
      | Some n \<Rightarrow> if n \<noteq> [] then indexOf ns n + 1 else 0)"

definition List_childWasAdded :: "snapshot \<Rightarrow> string option \<Rightarrow> jsval proxy \<Rightarrow> jsval proxy" where
  "List_childWasAdded snap previousName s =
     (let index = nat (indexAfter (names s) previousName)
      in s\<lparr>content := splice_js index 0 [createValueFromSnapshot s snap] (content s),
           names := assign (names s) index (sname snap)\<rparr>)"

definition List_childWasChanged :: "snapshot \<Rightarrow> string option \<Rightarrow> jsval proxy \<Rightarrow> jsval proxy" where
  "List_childWasChanged snap previousName s =
     (let index = nat (indexAfter (names s) previousName)
      in s\<lparr>content := splice_js index 1 [createValueFromSnapshot s snap] (content s),
           names := assign (names s) index (sname snap)\<rparr>)"

definition List_childWasRemoved :: "snapshot \<Rightarrow> jsval proxy \<Rightarrow> jsval proxy" where
  "List_childWasRemoved snap s =
     (let index = indexOf (names s) (sname snap)
      in if index \<noteq> - 1
         then s\<lparr>content := splice_js (nat index) 1 [] (content s),
                names := splice_js (nat index) 1 [] (names s)\<rparr>
         else s)"

definition List_childWasMoved :: "snapshot \<Rightarrow> string option \<Rightarrow> jsval proxy \<Rightarrow> jsval proxy" where
  "List_childWasMoved snap previousName s =
     List_childWasAdded snap previousName (List_childWasRemoved snap s)"

text \<open>The handler \<^verbatim>\<open>_setupRef\<close> registers for each child event.\<close>

fun List_on :: "child_event \<Rightarrow> jsval proxy \<Rightarrow> jsval proxy" where
  "List_on (ChildAdded snap p) s = List_childWasAdded snap p s"
| "List_on (ChildChanged snap p) s = List_childWasChanged snap p s"
| "List_on (ChildRemoved snap) s = List_childWasRemoved snap s"
| "List_on (ChildMoved snap p) s = List_childWasMoved snap p s"

text \<open>
  The snapshot of a child without children, named \<open>n\<close> and holding \<open>v\<close>. (The
  handlers of a list read the name and the value only.)
\<close>

definition leaf :: "string \<Rightarrow> jsval \<Rightarrow> snapshot" where
  "leaf n v = \<lparr>sname = n, sval = v, childNames = [], location = n\<rparr>"

text \<open>
  \<^verbatim>\<open>replaceContent(index, amount, objects)\<close>: throws when \<^verbatim>\<open>baseRef\<close> is missing, else
  removes the children named by \<^verbatim>\<open>_names.slice(index, index + amount)\<close> and pushes every
  object. The result is the exception, if any, and the proxy afterwards. The function
  itself leaves \<^verbatim>\<open>content\<close> and \<^verbatim>\<open>_names\<close> alone: they change when the service
  reports the operations back as child events, which the handlers above take.
\<close>

definition List_replaceContent ::
  "int \<Rightarrow> int \<Rightarrow> jsval list \<Rightarrow> jsval proxy \<Rightarrow> error option \<times> jsval proxy" where
  "List_replaceContent index amount objects s =
     (case baseRef s of
        None \<Rightarrow> (Some NotBound, s)
      | Some r \<Rightarrow>
          (None,
           s\<lparr>ops := ops s
                @ map (Remove r) (slice (names s) index (index + amount))
                @ map (\<lambda>object. PushSet r (getFirebaseValue object)) objects\<rparr>))"

section \<open>Firebase.Array\<close>

text \<open>
  The earlier array proxy, which stores the reserved child \<^verbatim>\<open>_isArray\<close> in the remote
  node. Its \<^verbatim>\<open>getSnapshotValue\<close> wraps a snapshot that has children in a new proxy on
  \<^verbatim>\<open>snapshot.ref()\<close>: a \<^verbatim>\<open>Firebase.Array\<close> when the marker is among the children, a
  \<^verbatim>\<open>Firebase.Object\<close> otherwise.
\<close>

datatype coerced = Plain jsval | ArrayAt string | ObjectAt string

text \<open>
  Creating the nested \<^verbatim>\<open>Firebase.Array\<close> runs its \<^verbatim>\<open>_setupWritableRef\<close>, which writes
  \<^verbatim>\<open>ref.child('_isArray').set(true)\<close>; the operation is returned with the value.
\<close>

definition Array_getSnapshotValue :: "snapshot \<Rightarrow> coerced \<times> remote_op list" where
  "Array_getSnapshotValue snap =
     (if hasChildren snap then
        (if hasChild snap ''_isArray''
         then (ArrayAt (location snap), [SetChild (location snap) ''_isArray'' (Bool True)])
         else (ObjectAt (location snap), []))
      else (Plain (sval snap), []))"

text \<open>
  Ember's \<^verbatim>\<open>insertAt(idx, object)\<close> throws when \<open>idx\<close> is greater than the length, and
  \<^verbatim>\<open>removeAt(start)\<close> when \<open>start\<close> is not a position of the array. The argument of
  \<^verbatim>\<open>insertAt\<close> is evaluated before the call, so its remote write is issued either way.
\<close>

definition Array_childWasAdded ::
  "snapshot \<Rightarrow> string option \<Rightarrow> coerced proxy \<Rightarrow> error option \<times> coerced proxy" where
  "Array_childWasAdded snap previousName s =
     (if sname snap = ''_isArray'' then (None, s)
      else
        (let index = nat (indexAfter (names s) previousName);
             (v, w) = Array_getSnapshotValue snap;
             s1 = s\<lparr>ops := ops s @ w\<rparr>
         in if index > length (content s1) then (Some OutOfRange, s1)
            else (None, s1\<lparr>content := splice_js index 0 [v] (content s1),
                            names := assign (names s1) index (sname snap)\<rparr>)))"

definition Array_childWasChanged ::
  "snapshot \<Rightarrow> string option \<Rightarrow> coerced proxy \<Rightarrow> error option \<times> coerced proxy" where
  "Array_childWasChanged snap previousName s =
     (if sname snap = ''_isArray'' then (None, s)
      else
        (let index = nat (indexAfter (names s) previousName);
             (v, w) = Array_getSnapshotValue snap;
             s1 = s\<lparr>ops := ops s @ w\<rparr>
         in (None, s1\<lparr>content := splice_js index 1 [v] (content s1),
                         names := assign (names s1) index (sname snap)\<rparr>)))"

definition Array_childWasRemoved :: "snapshot \<Rightarrow> coerced proxy \<Rightarrow> error option \<times> coerced proxy" where
  "Array_childWasRemoved snap s =
     (if sname snap = ''_isArray'' then (None, s)
      else
        (let index = indexOf (names s) (sname snap)
         in if index \<noteq> - 1 then
              (if nat index \<ge> length (content s) then (Some OutOfRange, s)
               else (None, s\<lparr>content := splice_js (nat index) 1 [] (content s),
                              names := splice_js (nat index) 1 [] (names s)\<rparr>))
            else (None, s)))"

definition Array_childWasMoved ::
  "snapshot \<Rightarrow> string option \<Rightarrow> coerced proxy \<Rightarrow> error option \<times> coerced proxy" where
  "Array_childWasMoved snap previousName s =
     (if sname snap = ''_isArray'' then (None, s)
      else
        (case Array_childWasRemoved snap s of
           (Some e, s1) \<Rightarrow> (Some e, s1)
         | (None, s1) \<Rightarrow> Array_childWasAdded snap previousName s1))"

text \<open>The handler \<^verbatim>\<open>_setupRef\<close> registers for each child event.\<close>

fun Array_on :: "child_event \<Rightarrow> coerced proxy \<Rightarrow> error option \<times> coerced proxy" where
  "Array_on (ChildAdded snap p) s = Array_childWasAdded snap p s"
| "Array_on (ChildChanged snap p) s = Array_childWasChanged snap p s"
| "Array_on (ChildRemoved snap) s = Array_childWasRemoved snap s"
| "Array_on (ChildMoved snap p) s = Array_childWasMoved snap p s"

text \<open>
  A stream of child events, each handled in its own call: an exception ends the handler
  that threw, not the delivery of the later events.
\<close>

definition Array_deliver :: "child_event list \<Rightarrow> coerced proxy \<Rightarrow> coerced proxy" where
  "Array_deliver es s = foldl (\<lambda>t e. snd (Array_on e t)) s es"

section \<open>Firebase.Binding\<close>

text \<open>
  One binding between the value at its \<^verbatim>\<open>ref\<close> and the property at its \<^verbatim>\<open>path\<close> on each
  connected object. Objects are identified by numbers. The record holds the binding's own
  fields (\<^verbatim>\<open>_oneWay\<close>, \<^verbatim>\<open>_directionMap\<close>, \<^verbatim>\<open>_objects\<close>, \<^verbatim>\<open>_observingRef\<close>,
  \<^verbatim>\<open>_ignoreRefChanges\<close>) and what it acts on:
  \<^item> \<open>syncQueue\<close>: the calls \<^verbatim>\<open>_sync(object, snapshot)\<close> scheduled on Ember's
    \<^verbatim>\<open>sync\<close> queue, in order; a missing snapshot argument is \<open>None\<close>. A snapshot of
    the bound location is represented by its \<^verbatim>\<open>val()\<close>, all the binding reads of it;
  \<^item> \<open>isDestroyed\<close>, \<open>pathValue\<close>: the flag \<^verbatim>\<open>object.isDestroyed\<close> and the value
    \<^verbatim>\<open>get(object, path)\<close> of every object;
  \<^item> \<open>pathObservers\<close>: the objects on whose path \<^verbatim>\<open>_pathDidChange\<close> is registered;
  \<^item> \<open>pathSets\<close>: the values written to the path of an object, in order;
  \<^item> \<open>refValue\<close>, \<open>refSets\<close>: the value at the location, and the values written with
    \<^verbatim>\<open>ref.set\<close>, in order.
\<close>

type_synonym owner = nat

datatype direction = Push | Pull

record binding =
  oneWay :: bool
  directionMap :: "owner \<Rightarrow> direction option"
  objects :: "owner list"
  observingRef :: bool
  ignoreRefChanges :: bool
  syncQueue :: "(owner \<times> jsval option) list"
  isDestroyed :: "owner \<Rightarrow> bool"
  pathValue :: "owner \<Rightarrow> jsval"
  pathObservers :: "owner set"
  pathSets :: "(owner \<times> jsval) list"
  refValue :: jsval
  refSets :: "jsval list"

text \<open>
  \<^verbatim>\<open>new Firebase.Binding(path, ref)\<close>, in a world where the objects have the given flags
  and property values and the location holds \<open>v\<close>.
\<close>

definition Binding_new :: "(owner \<Rightarrow> bool) \<Rightarrow> (owner \<Rightarrow> jsval) \<Rightarrow> jsval \<Rightarrow> binding" where
  "Binding_new destroyed vals v =
     \<lparr>oneWay = False, directionMap = Map.empty, objects = [], observingRef = False,
      ignoreRefChanges = False, syncQueue = [], isDestroyed = destroyed, pathValue = vals,
      pathObservers = {}, pathSets = [], refValue = v, refSets = []\<rparr>"

definition Binding_oneWay :: "binding \<Rightarrow> binding" where
  "Binding_oneWay s = s\<lparr>oneWay := True\<rparr>"

text \<open>
  \<^verbatim>\<open>connect(object)\<close>. \<^verbatim>\<open>addObject\<close> adds an object that is not yet in the array. The
  value the service reports after \<^verbatim>\<open>ref.on('value', ...)\<close> arrives as a later call of
  \<^verbatim>\<open>_refDidChange\<close>.
\<close>

definition Binding_connect :: "owner \<Rightarrow> binding \<Rightarrow> binding" where
  "Binding_connect object s =
     (let s1 = s\<lparr>objects := (if object \<in> set (objects s) then objects s
                               else objects s @ [object])\<rparr>;
          s2 = (if \<not> observingRef s1 then s1\<lparr>observingRef := True\<rparr> else s1)
      in if \<not> oneWay s2 then s2\<lparr>pathObservers := insert object (pathObservers s2)\<rparr> else s2)"

definition Binding_disconnect :: "owner \<Rightarrow> binding \<Rightarrow> binding" where
  "Binding_disconnect object s =
     (let s1 = s\<lparr>objects := removeAll object (objects s)\<rparr>;
          s2 = (if length (objects s1) = 0 \<and> observingRef s1
                then s1\<lparr>observingRef := False\<rparr> else s1);
          s3 = (if \<not> oneWay s2 then s2\<lparr>pathObservers := pathObservers s2 - {object}\<rparr>
                else s2)
      in s3\<lparr>directionMap := (directionMap s3)(object := None)\<rparr>)"

text \<open>
  \<^verbatim>\<open>_scheduleSync(direction, object, snapshot)\<close>: the first request for an object puts
  \<^verbatim>\<open>_sync(object, snapshot)\<close> on the queue and records the direction; a later
  \<^verbatim>\<open>pull\<close> over a recorded \<^verbatim>\<open>push\<close> changes the recorded direction only.
\<close>

definition Binding_scheduleSync :: "direction \<Rightarrow> owner \<Rightarrow> jsval option \<Rightarrow> binding \<Rightarrow> binding" where
  "Binding_scheduleSync direction object snapshot s =
     (let existingDirection = directionMap s object;
          s1 = (if existingDirection = None
                then s\<lparr>syncQueue := syncQueue s @ [(object, snapshot)],
                       directionMap := (directionMap s)(object \<mapsto> direction)\<rparr>
                else s)
      in if existingDirection = Some Push \<and> direction = Pull
         then s1\<lparr>directionMap := (directionMap s1)(object \<mapsto> Pull)\<rparr>
         else s1)"

definition Binding_refDidChange :: "jsval \<Rightarrow> binding \<Rightarrow> binding" where
  "Binding_refDidChange snapshot s =
     (if ignoreRefChanges s then s
      else foldl (\<lambda>t object. Binding_scheduleSync Pull object (Some snapshot) t) s (objects s))"

definition Binding_pathDidChange :: "owner \<Rightarrow> binding \<Rightarrow> binding" where
  "Binding_pathDidChange object s = Binding_scheduleSync Push object None s"

text \<open>
  \<^verbatim>\<open>Ember.trySet(object, path, value)\<close>: nothing on a destroyed object; otherwise the
  property is set and, when the value changed, the observers of the path run. The flag
  says whether \<^verbatim>\<open>_pathDidChange\<close> is suspended for the call (\<^verbatim>\<open>Ember._suspendObserver\<close>).
\<close>

definition trySet :: "bool \<Rightarrow> owner \<Rightarrow> jsval \<Rightarrow> binding \<Rightarrow> binding" where
  "trySet suspended object v s =
     (if isDestroyed s object then s
      else
        (let s1 = s\<lparr>pathValue := (pathValue s)(object := v),
                    pathSets := pathSets s @ [(object, v)]\<rparr>
         in if object \<in> pathObservers s \<and> \<not> suspended \<and> pathValue s object \<noteq> v
            then Binding_pathDidChange object s1
            else s1))"

text \<open>
  \<^verbatim>\<open>ref.set(value)\<close>: the write is issued and the service reports the new value to the
  \<^verbatim>\<open>value\<close> listener of this client before the call returns.
\<close>

definition refSet :: "jsval \<Rightarrow> binding \<Rightarrow> binding" where
  "refSet v s =
     (let s1 = s\<lparr>refValue := v, refSets := refSets s @ [v]\<rparr>
      in if observingRef s1 then Binding_refDidChange v s1 else s1)"

text \<open>
  \<^verbatim>\<open>_sync(object, snapshot)\<close>. \<^verbatim>\<open>createValueFromSnapshot(snapshot)\<close> is
  \<^verbatim>\<open>snapshot.val()\<close>, a \<^verbatim>\<open>TypeError\<close> when the snapshot argument is missing. The result
  is the exception, if any, and the state afterwards.
\<close>

definition Binding_sync :: "owner \<Rightarrow> jsval option \<Rightarrow> binding \<Rightarrow> error option \<times> binding" where
  "Binding_sync object snapshot s =
     (if isDestroyed s object then (None, s)
      else
        (let direction = directionMap s object;
             s1 = s\<lparr>directionMap := (directionMap s)(object := None)\<rparr>
         in case direction of
              Some Pull \<Rightarrow>
                (case snapshot of
                   None \<Rightarrow> (Some TypeError, s1)
                 | Some v \<Rightarrow>
                     (None, if oneWay s1 then trySet False object v s1
                            else trySet True object v s1))
            | Some Push \<Rightarrow>
                (let v = getFirebaseValue (pathValue s1 object);
                     s2 = s1\<lparr>ignoreRefChanges := True\<rparr>;
                     s3 = refSet v s2
                 in (None, s3\<lparr>ignoreRefChanges := False\<rparr>))
            | None \<Rightarrow> (None, s1)))"

subsection \<open>The synchronization checkpoint\<close>

text \<open>
  The work left: every scheduled call counts once, and once more while its object waits
  for a pull, since a pull may schedule one further call. \<open>batchCost\<close> counts the
  calls of the running batch with those on the queue.
\<close>

definition pulls :: "(owner \<Rightarrow> direction option) \<Rightarrow> (owner \<times> jsval option) list \<Rightarrow> nat" where
  "pulls m q = length (filter (\<lambda>entry. m (fst entry) = Some Pull) q)"

definition batchCost :: "binding \<Rightarrow> (owner \<times> jsval option) list \<Rightarrow> nat" where
  "batchCost s batch =
     length (syncQueue s) + pulls (directionMap s) (syncQueue s)
     + length batch + pulls (directionMap s) batch"

definition syncCost :: "binding \<Rightarrow> nat" where
  "syncCost s = length (syncQueue s) + pulls (directionMap s) (syncQueue s)"

text \<open>
  The calls of one batch, in order. A call that throws ends the batch: the calls after it
  are not made.
\<close>

fun runScheduled :: "(owner \<times> jsval option) list \<Rightarrow> binding \<Rightarrow> error option \<times> binding" where
  "runScheduled [] s = (None, s)"
| "runScheduled ((object, snapshot) # rest) s =
     (case Binding_sync object snapshot s of
        (Some e, s1) \<Rightarrow> (Some e, s1)
      | (None, s1) \<Rightarrow> runScheduled rest s1)"

lemma refDidChange_ignored: "ignoreRefChanges s \<Longrightarrow> Binding_refDidChange v s = s"
  by (simp add: Binding_refDidChange_def)

lemma refSet_ignored:
  "ignoreRefChanges s \<Longrightarrow> refSet v s = s\<lparr>refValue := v, refSets := refSets s @ [v]\<rparr>"
  by (simp add: refSet_def Let_def refDidChange_ignored)

lemma filter_length_mono:
  "(\<And>x. x \<in> set xs \<Longrightarrow> P x \<Longrightarrow> Q x) \<Longrightarrow> length (filter P xs) \<le> length (filter Q xs)"
  by (induction xs) auto

lemma sync_push:
  "\<not> isDestroyed s object \<Longrightarrow> directionMap s object = Some Push \<Longrightarrow>
   Binding_sync object snapshot s =
     (None, s\<lparr>directionMap := (directionMap s)(object := None),
              ignoreRefChanges := False,
              refValue := getFirebaseValue (pathValue s object),
              refSets := refSets s @ [getFirebaseValue (pathValue s object)]\<rparr>)"
  by (simp add: Binding_sync_def Let_def refSet_ignored)

lemma pulls_mono: "(\<And>x. m x = Some Pull \<Longrightarrow> m' x = Some Pull) \<Longrightarrow> pulls m q \<le> pulls m' q"
  unfolding pulls_def by (rule filter_length_mono) simp

lemma pulls_Cons: "pulls m ((x, a) # q) = (if m x = Some Pull then Suc (pulls m q) else pulls m q)"
  by (simp add: pulls_def)

lemma pulls_snoc: "pulls m (q @ [(x, a)]) = (if m x = Some Pull then Suc (pulls m q) else pulls m q)"
  by (simp add: pulls_def)

lemma sync_result:
  assumes "Binding_sync object snapshot s = (None, s1)"
  shows "(syncQueue s1 = syncQueue s \<and>
            (directionMap s1 = directionMap s \<or> directionMap s1 = (directionMap s)(object := None)))
         \<or> (directionMap s object = Some Pull \<and>
             syncQueue s1 = syncQueue s @ [(object, None)] \<and>
             directionMap s1 = (directionMap s)(object \<mapsto> Push))"
proof (cases "isDestroyed s object")
  case True
  then show ?thesis using assms by (simp add: Binding_sync_def)
next
  case alive: False
  show ?thesis
  proof (cases "directionMap s object")
    case None
    then show ?thesis using assms alive by (auto simp: Binding_sync_def)
  next
    case (Some d)
    show ?thesis
    proof (cases d)
      case Push
      then show ?thesis
        using assms alive Some sync_push [of s object snapshot] by auto
    next
      case Pull
      obtain v where v: "snapshot = Some v"
        using assms alive Some Pull by (cases snapshot) (simp_all add: Binding_sync_def)
      show ?thesis
        using assms alive Some Pull v
        by (auto simp: Binding_sync_def trySet_def Binding_pathDidChange_def
              Binding_scheduleSync_def Let_def split: if_splits)
    qed
  qed
qed

lemma sync_cost:
  assumes run: "Binding_sync object snapshot s = (None, s1)"
  shows "batchCost s1 rest < batchCost s ((object, snapshot) # rest)"
proof -
  let ?m = "directionMap s" and ?q = "syncQueue s"
  have cost: "batchCost s ((object, snapshot) # rest) =
      length ?q + pulls ?m ?q + Suc (length rest)
      + (if ?m object = Some Pull then Suc (pulls ?m rest) else pulls ?m rest)"
    by (simp add: batchCost_def pulls_Cons)
  from sync_result [OF run]
  consider (same) "syncQueue s1 = ?q" "directionMap s1 = ?m \<or> directionMap s1 = ?m(object := None)"
    | (again) "?m object = Some Pull" "syncQueue s1 = ?q @ [(object, None)]"
        "directionMap s1 = ?m(object \<mapsto> Push)"
    by auto
  then show ?thesis
  proof cases
    case same
    have "pulls (directionMap s1) rest \<le> pulls ?m rest"
      and "pulls (directionMap s1) ?q \<le> pulls ?m ?q"
      using same(2) by (auto intro!: pulls_mono split: if_splits)
    then show ?thesis using same(1) cost by (simp add: batchCost_def)
  next
    case again
    have "pulls (?m(object \<mapsto> Push)) rest \<le> pulls ?m rest"
      and "pulls (?m(object \<mapsto> Push)) ?q \<le> pulls ?m ?q"
      by (rule pulls_mono, simp split: if_splits)+
    then show ?thesis using again cost by (simp add: batchCost_def pulls_snoc)
  qed
qed

lemma runScheduled_cost:
  "runScheduled batch s = (None, s1) \<Longrightarrow> batchCost s1 [] \<le> batchCost s batch"
proof (induction batch arbitrary: s)
  case Nil
  then show ?case by simp
next
  case (Cons entry rest)
  obtain object snapshot where entry: "entry = (object, snapshot)" by (cases entry)
  obtain err t where run: "Binding_sync object snapshot s = (err, t)"
    by (cases "Binding_sync object snapshot s")
  with Cons.prems entry have none: "err = None" and more: "runScheduled rest t = (None, s1)"
    by (auto split: option.splits)
  have "batchCost s1 [] \<le> batchCost t rest" using Cons.IH more by blast
  moreover have "batchCost t rest < batchCost s ((object, snapshot) # rest)"
    using run none sync_cost by blast
  ultimately show ?case using entry by simp
qed

lemma runScheduled_decreases:
  assumes "runScheduled (syncQueue s) (s\<lparr>syncQueue := []\<rparr>) = (None, s1)" and "syncQueue s \<noteq> []"
  shows "syncCost s1 < syncCost s"
proof -
  obtain object snapshot rest where q: "syncQueue s = (object, snapshot) # rest"
    using assms(2) by (cases "syncQueue s") auto
  obtain err t where run: "Binding_sync object snapshot (s\<lparr>syncQueue := []\<rparr>) = (err, t)"
    by (cases "Binding_sync object snapshot (s\<lparr>syncQueue := []\<rparr>)")
  with assms(1) q have none: "err = None" and more: "runScheduled rest t = (None, s1)"
    by (auto split: option.splits)
  have "batchCost s1 [] \<le> batchCost t rest" using more by (rule runScheduled_cost)
  moreover have "batchCost t rest < batchCost (s\<lparr>syncQueue := []\<rparr>) ((object, snapshot) # rest)"
    using run none sync_cost by blast
  moreover have "batchCost (s\<lparr>syncQueue := []\<rparr>) ((object, snapshot) # rest) = syncCost s"
    using q by (simp add: batchCost_def syncCost_def pulls_def)
  moreover have "batchCost s1 [] = syncCost s1"
    by (simp add: batchCost_def syncCost_def pulls_def)
  ultimately show ?thesis by simp
qed

text \<open>
  Flushing the \<^verbatim>\<open>sync\<close> queue: the run loop takes the queue as a batch, leaving it
  empty, makes the calls of the batch in order, and goes on with what they scheduled
  until nothing is scheduled. When a call throws the flush ends with the exception and
  the rest of the batch is dropped.
\<close>

function Binding_flush :: "binding \<Rightarrow> error option \<times> binding" where
  "Binding_flush s =
     (if syncQueue s = [] then (None, s)
      else
        (case runScheduled (syncQueue s) (s\<lparr>syncQueue := []\<rparr>) of
           (Some e, s1) \<Rightarrow> (Some e, s1)
         | (None, s1) \<Rightarrow> Binding_flush s1))"
  by pat_completeness auto
termination
  apply (relation "measure syncCost")
   apply simp
  apply (simp add: runScheduled_decreases)
  done


section \<open>Facts about arrays\<close>

lemma indexOf_absent: "x \<notin> set xs \<Longrightarrow> indexOf xs x = - 1"
  by (induction xs) (auto simp: Let_def)

lemma indexOf_present_bounds: "x \<in> set xs \<Longrightarrow> 0 \<le> indexOf xs x \<and> indexOf xs x < int (length xs)"
  by (induction xs) (auto simp: Let_def)

lemma indexOf_ge: "- 1 \<le> indexOf xs x"
  by (induction xs) (auto simp: Let_def)

lemma indexOf_lt_length: "indexOf xs x < int (length xs)"
  by (induction xs) (auto simp: Let_def)

lemma indexOf_minus_one_iff: "indexOf xs x = - 1 \<longleftrightarrow> x \<notin> set xs"
  using indexOf_absent indexOf_present_bounds by fastforce

lemma indexOf_nth: "x \<in> set xs \<Longrightarrow> xs ! nat (indexOf xs x) = x"
proof (induction xs)
  case Nil
  then show ?case by simp
next
  case (Cons y ys)
  show ?case
  proof (cases "y = x")
    case True
    then show ?thesis by simp
  next
    case False
    with Cons.prems have mem: "x \<in> set ys" by simp
    then have "0 \<le> indexOf ys x" by (simp add: indexOf_present_bounds)
    moreover have "ys ! nat (indexOf ys x) = x" using Cons.IH mem by simp
    ultimately show ?thesis using False
      by (simp add: Let_def nat_add_distrib)
  qed
qed

lemma indexOf_first: "i < nat (indexOf xs x) \<Longrightarrow> xs ! i \<noteq> x"
proof (induction xs arbitrary: i)
  case Nil
  then show ?case by simp
next
  case (Cons y ys)
  show ?case
  proof (cases "y = x")
    case True
    with Cons.prems show ?thesis by simp
  next
    case False
    show ?thesis
    proof (cases i)
      case 0
      then show ?thesis using False by simp
    next
      case (Suc j)
      have "indexOf ys x \<noteq> - 1" using Cons.prems False by (auto simp: Let_def split: if_splits)
      then have "nat (indexOf (y # ys) x) = Suc (nat (indexOf ys x))"
        using False indexOf_ge [of ys x] by (simp add: Let_def nat_add_distrib)
      then have "j < nat (indexOf ys x)" using Cons.prems Suc by simp
      then show ?thesis using Cons.IH Suc by simp
    qed
  qed
qed

lemma indexAfter_le_length: "0 \<le> indexAfter ns p \<and> nat (indexAfter ns p) \<le> length ns"
  using indexOf_ge [of ns] indexOf_lt_length [of ns]
  by (auto simp: indexAfter_def split: option.splits) (smt (verit) nat_le_iff)+


lemma splice_Cons_Suc: "splice_js (Suc k) n items (y # ys) = y # splice_js k n items ys"
  by (simp add: splice_js_def)

lemma indexOf_Cons_neq:
  "y \<noteq> x \<Longrightarrow> x \<in> set ys \<Longrightarrow> nat (indexOf (y # ys) x) = Suc (nat (indexOf ys x))"
  using indexOf_present_bounds [of x ys] by (simp add: Let_def nat_add_distrib)

lemma splice_removes_distinct:
  "distinct xs \<Longrightarrow> x \<in> set xs \<Longrightarrow> x \<notin> set (splice_js (nat (indexOf xs x)) 1 [] xs)"
proof (induction xs)
  case Nil
  then show ?case by simp
next
  case (Cons y ys)
  show ?case
  proof (cases "y = x")
    case True
    with Cons.prems show ?thesis by (simp add: splice_js_def)
  next
    case False
    with Cons.prems have mem: "x \<in> set ys" and d: "distinct ys" by simp_all
    have "x \<notin> set (splice_js (nat (indexOf ys x)) 1 [] ys)" using Cons.IH d mem by simp
    moreover have "nat (indexOf (y # ys) x) = Suc (nat (indexOf ys x))"
      using False mem by (rule indexOf_Cons_neq)
    ultimately show ?thesis using False
      by (simp add: splice_Cons_Suc del: indexOf.simps)
  qed
qed

section \<open>Firebase.List: the child event handlers\<close>

text \<open>
  C6. The index an add or a change notification resolves to (\<^verbatim>\<open>_indexAfter\<close>) is \<open>0\<close>
  when the preceding name is \<^verbatim>\<open>null\<close>, \<open>0\<close> when it is not among the local names, and
  \<open>indexOf(precedingName) + 1\<close> when it is. Child names of the remote service are
  non-empty strings; the empty string, which JavaScript treats like \<^verbatim>\<open>null\<close>, is covered
  by \<open>indexAfter_empty_name\<close>.
\<close>

theorem indexAfter_resolves:
  "indexAfter ns None = 0 \<and>
   (p \<notin> set ns \<longrightarrow> indexAfter ns (Some p) = 0) \<and>
   (p \<in> set ns \<and> p \<noteq> [] \<longrightarrow> indexAfter ns (Some p) = indexOf ns p + 1)"
  by (simp add: indexAfter_def indexOf_absent)

theorem indexAfter_resolves_witness:
  "indexAfter [''a'', ''b''] None = 0 \<and>
   indexAfter [''a'', ''b''] (Some ''c'') = 0 \<and>
   indexAfter [''a'', ''b''] (Some ''b'') = indexOf [''a'', ''b''] ''b'' + 1 \<and>
   indexAfter [''a'', ''b''] (Some ''b'') = 2"
  using indexAfter_resolves [of "[''a'', ''b'']" "''c''"]
        indexAfter_resolves [of "[''a'', ''b'']" "''b''"]
  by simp

lemma indexAfter_empty_name: "indexAfter ns (Some []) = 0"
  by (simp add: indexAfter_def)

text \<open>
  What \<^verbatim>\<open>childWasRemoved\<close> does: it deletes the slot at the first position of the name
  from \<^verbatim>\<open>content\<close> and from \<^verbatim>\<open>_names\<close> when the name is among the names, and changes
  nothing when it is not. With pairwise different names a second removal of the same
  name changes nothing. The handler has no failing branch.
\<close>

theorem childWasRemoved_effect:
  "(sname snap \<in> set (names s) \<longrightarrow>
      List_childWasRemoved snap s =
        s\<lparr>content := take (nat (indexOf (names s) (sname snap))) (content s)
                      @ drop (Suc (nat (indexOf (names s) (sname snap)))) (content s),
          names := take (nat (indexOf (names s) (sname snap))) (names s)
                      @ drop (Suc (nat (indexOf (names s) (sname snap)))) (names s)\<rparr>) \<and>
   (sname snap \<notin> set (names s) \<longrightarrow> List_childWasRemoved snap s = s) \<and>
   (distinct (names s) \<longrightarrow>
      List_childWasRemoved snap (List_childWasRemoved snap s) = List_childWasRemoved snap s)"
proof (intro conjI impI)
  assume "sname snap \<in> set (names s)"
  then have "indexOf (names s) (sname snap) \<noteq> - 1" by (simp add: indexOf_minus_one_iff)
  then show "List_childWasRemoved snap s =
        s\<lparr>content := take (nat (indexOf (names s) (sname snap))) (content s)
                      @ drop (Suc (nat (indexOf (names s) (sname snap)))) (content s),
          names := take (nat (indexOf (names s) (sname snap))) (names s)
                      @ drop (Suc (nat (indexOf (names s) (sname snap)))) (names s)\<rparr>"
    by (simp add: List_childWasRemoved_def splice_js_def Let_def)
next
  assume "sname snap \<notin> set (names s)"
  then show "List_childWasRemoved snap s = s"
    by (simp add: List_childWasRemoved_def indexOf_absent Let_def)
next
  assume d: "distinct (names s)"
  show "List_childWasRemoved snap (List_childWasRemoved snap s) = List_childWasRemoved snap s"
  proof (cases "sname snap \<in> set (names s)")
    case True
    then have "sname snap \<notin> set (names (List_childWasRemoved snap s))"
      using splice_removes_distinct [OF d True]
      by (simp add: List_childWasRemoved_def indexOf_minus_one_iff Let_def)
    then show ?thesis
      by (simp add: List_childWasRemoved_def [of snap "List_childWasRemoved snap s"] indexOf_absent Let_def)
  next
    case False
    then show ?thesis by (simp add: List_childWasRemoved_def indexOf_absent Let_def)
  qed
qed

theorem childWasRemoved_effect_witness:
  "List_childWasRemoved \<lparr>sname = ''b'', sval = Num 2, childNames = [], location = ''r/b''\<rparr>
      \<lparr>ref = Some (Location ''r''), content = [Num 1, Num 2], names = [''a'', ''b''],
       members = {}, ops = []\<rparr>
    = \<lparr>ref = Some (Location ''r''), content = [Num 1], names = [''a''], members = {}, ops = []\<rparr>
   \<and> List_childWasRemoved \<lparr>sname = ''b'', sval = Num 2, childNames = [], location = ''r/b''\<rparr>
      \<lparr>ref = Some (Location ''r''), content = [Num 1], names = [''a''], members = {}, ops = []\<rparr>
    = \<lparr>ref = Some (Location ''r''), content = [Num 1], names = [''a''], members = {}, ops = []\<rparr>"
  using childWasRemoved_effect
     [of "\<lparr>sname = ''b'', sval = Num 2, childNames = [], location = ''r/b''\<rparr>"
         "\<lparr>ref = Some (Location ''r''), content = [Num 1, Num 2], names = [''a'', ''b''],
           members = {}, ops = []\<rparr>"]
    childWasRemoved_effect
     [of "\<lparr>sname = ''b'', sval = Num 2, childNames = [], location = ''r/b''\<rparr>"
         "\<lparr>ref = Some (Location ''r''), content = [Num 1], names = [''a''], members = {}, ops = []\<rparr>"]
  by (simp add: Let_def)

text \<open>
  What \<^verbatim>\<open>childWasAdded\<close> does to the two arrays: the value is spliced into
  \<^verbatim>\<open>content\<close> at the resolved index, the name is assigned to that index of \<^verbatim>\<open>_names\<close>.
\<close>

lemma childWasAdded_content:
  "content (List_childWasAdded snap p s) =
     take (nat (indexAfter (names s) p)) (content s)
     @ [createValueFromSnapshot s snap]
     @ drop (nat (indexAfter (names s) p)) (content s)"
  by (simp add: List_childWasAdded_def Let_def splice_js_def)

lemma childWasAdded_names:
  "names (List_childWasAdded snap p s) =
     (if nat (indexAfter (names s) p) < length (names s)
      then (names s)[nat (indexAfter (names s) p) := sname snap]
      else names s @ [sname snap])"
  by (simp add: List_childWasAdded_def Let_def assign_def)

lemma assign_length:
  "length (assign xs i v) = (if i < length xs then length xs else Suc (length xs))"
  by (simp add: assign_def)

lemma childWasAdded_lengths:
  "length (names (List_childWasAdded snap p s)) =
     (if nat (indexAfter (names s) p) < length (names s) then length (names s)
      else Suc (length (names s)))"
  by (simp add: List_childWasAdded_def Let_def assign_length)

text \<open>
  C1. An add notification whose preceding name is known locally is to insert the new
  value and the new name at \<open>indexOf(precedingName) + 1\<close> in both arrays, which then are
  both one longer and keep every earlier pair at its shifted position. With the names
  \<open>a, b\<close>, the values \<open>1, 2\<close> and the child \<open>c\<close> added after \<open>a\<close>, the value \<open>3\<close> is
  inserted at index \<open>1\<close>, but the name \<open>c\<close> replaces \<open>b\<close>: \<^verbatim>\<open>_names\<close> keeps its length
  and no longer holds \<open>b\<close>.
\<close>

theorem childWasAdded_overwrites_name:
  "List_childWasAdded \<lparr>sname = ''c'', sval = Num 3, childNames = [], location = ''r/c''\<rparr> (Some ''a'')
      \<lparr>ref = Some (Location ''r''), content = [Num 1, Num 2], names = [''a'', ''b''],
       members = {}, ops = []\<rparr>
   = \<lparr>ref = Some (Location ''r''), content = [Num 1, Num 3, Num 2], names = [''a'', ''c''],
      members = {}, ops = []\<rparr>"
  by (simp add: List_childWasAdded_def indexAfter_def splice_js_def assign_def
        createValueFromSnapshot_def getSnapshotValue_def Let_def)

lemmas List_handler_defs =
  List_childWasAdded_def List_childWasChanged_def List_childWasRemoved_def
  List_childWasMoved_def indexAfter_def splice_js_def assign_def
  createValueFromSnapshot_def getSnapshotValue_def Let_def

text \<open>
  C8. From an empty bound list, \<open>added(a, 1, null)\<close>, \<open>added(b, 2, a)\<close>,
  \<open>moved(a, b)\<close> and \<open>removed(b)\<close> give the contents \<open>[1]\<close>, \<open>[1, 2]\<close>, \<open>[2, 1]\<close>,
  \<open>[1]\<close> and the names \<open>[a]\<close>, \<open>[a, b]\<close>, \<open>[b, a]\<close>, \<open>[a]\<close>. The moved snapshot
  carries the value of \<open>a\<close>; \<open>a\<close> and \<open>b\<close> are not property names of the proxy, whose
  values \<^verbatim>\<open>createValueFromSnapshot\<close> would replace by \<^verbatim>\<open>null\<close>.
\<close>

theorem reconciliation_scenario:
  assumes a: "''a'' \<notin> K" and b: "''b'' \<notin> K"
  shows "(let s0 = List_create (Some r) K;
              s1 = List_on (ChildAdded (leaf ''a'' (Num 1)) None) s0;
              s2 = List_on (ChildAdded (leaf ''b'' (Num 2)) (Some ''a'')) s1;
              s3 = List_on (ChildMoved (leaf ''a'' (Num 1)) (Some ''b'')) s2;
              s4 = List_on (ChildRemoved (leaf ''b'' (Num 2))) s3
          in content s1 = [Num 1] \<and> names s1 = [''a''] \<and>
             content s2 = [Num 1, Num 2] \<and> names s2 = [''a'', ''b''] \<and>
             content s3 = [Num 2, Num 1] \<and> names s3 = [''b'', ''a''] \<and>
             content s4 = [Num 1] \<and> names s4 = [''a''])"
proof -
  let ?st = "\<lambda>c n. \<lparr>ref = Some r, content = c, names = n, members = K, ops = []\<rparr>"
  have e1: "List_on (ChildAdded (leaf ''a'' (Num 1)) None) (List_create (Some r) K)
      = ?st [Num 1] [''a'']"
    using a by (simp add: List_create_def leaf_def List_handler_defs)
  have e2: "List_on (ChildAdded (leaf ''b'' (Num 2)) (Some ''a'')) (?st [Num 1] [''a''])
      = ?st [Num 1, Num 2] [''a'', ''b'']"
    using b by (simp add: leaf_def List_handler_defs)
  have e3: "List_on (ChildMoved (leaf ''a'' (Num 1)) (Some ''b'')) (?st [Num 1, Num 2] [''a'', ''b''])
      = ?st [Num 2, Num 1] [''b'', ''a'']"
    using a by (simp add: leaf_def List_handler_defs)
  have e4: "List_on (ChildRemoved (leaf ''b'' (Num 2))) (?st [Num 2, Num 1] [''b'', ''a''])
      = ?st [Num 1] [''a'']"
    by (simp add: leaf_def List_handler_defs)
  show ?thesis
    unfolding Let_def e1 e2 e3 e4 by simp
qed

theorem reconciliation_scenario_witness:
  "(let s0 = List_create (Some (Location ''r'')) {''content'', ''ref''};
        s1 = List_on (ChildAdded (leaf ''a'' (Num 1)) None) s0;
        s2 = List_on (ChildAdded (leaf ''b'' (Num 2)) (Some ''a'')) s1;
        s3 = List_on (ChildMoved (leaf ''a'' (Num 1)) (Some ''b'')) s2;
        s4 = List_on (ChildRemoved (leaf ''b'' (Num 2))) s3
    in content s1 = [Num 1] \<and> names s1 = [''a''] \<and>
       content s2 = [Num 1, Num 2] \<and> names s2 = [''a'', ''b''] \<and>
       content s3 = [Num 2, Num 1] \<and> names s3 = [''b'', ''a''] \<and>
       content s4 = [Num 1] \<and> names s4 = [''a''])"
  by (rule reconciliation_scenario) simp_all


section \<open>Firebase.List: local edits\<close>

text \<open>
  C4. On a list without a \<^verbatim>\<open>ref\<close>, \<^verbatim>\<open>replaceContent\<close> throws before any remote call:
  no operation is issued and the list is as it was.
\<close>

theorem replaceContent_unbound:
  "ref s = None \<Longrightarrow> List_replaceContent index amount objs s = (Some NotBound, s)"
  by (simp add: List_replaceContent_def baseRef_def)

theorem replaceContent_unbound_witness:
  "List_replaceContent 0 1 [Num 9]
      \<lparr>ref = None, content = [Num 1], names = [''a''], members = {}, ops = []\<rparr>
   = (Some NotBound, \<lparr>ref = None, content = [Num 1], names = [''a''], members = {}, ops = []\<rparr>)"
  using replaceContent_unbound
    [of "\<lparr>ref = None, content = [Num 1], names = [''a''], members = {}, ops = []\<rparr>" 0 1 "[Num 9]"]
  by simp

lemma slice_in_range:
  "0 \<le> b \<Longrightarrow> 0 \<le> n \<Longrightarrow> b + n \<le> int (length xs) \<Longrightarrow>
   slice xs b (b + n) = take (nat n) (drop (nat b) xs)"
proof -
  assume b: "0 \<le> b" and n: "0 \<le> n" and le: "b + n \<le> int (length xs)"
  have "nat (b + n) - nat b = nat n" using b n by (simp add: nat_add_distrib)
  then show ?thesis using b n le by (simp add: slice_def clampIndex_def Let_def min_def)
qed

lemma slice_empty: "slice xs b b = []"
  by (simp add: slice_def Let_def)

text \<open>
  C7. On a bound list, \<^verbatim>\<open>replaceContent(index, amount, objects)\<close> issues one
  \<^verbatim>\<open>remove\<close> for each name in \<^verbatim>\<open>_names.slice(index, index + amount)\<close>, in order, then one
  \<^verbatim>\<open>push().set\<close> for each object, in order, and nothing else. For a range inside the
  array the slice is the \<open>amount\<close> names from position \<open>index\<close> on. The pushes do not
  depend on \<open>index\<close>.
\<close>

theorem replaceContent_ops:
  "baseRef s = Some r \<longrightarrow>
     List_replaceContent index amount objs s =
       (None, s\<lparr>ops := ops s
                   @ map (Remove r) (slice (names s) index (index + amount))
                   @ map (\<lambda>object. PushSet r (getFirebaseValue object)) objs\<rparr>) \<and>
     (0 \<le> index \<and> 0 \<le> amount \<and> index + amount \<le> int (length (names s)) \<longrightarrow>
        slice (names s) index (index + amount) = take (nat amount) (drop (nat index) (names s)) \<and>
        length (slice (names s) index (index + amount)) = nat amount) \<and>
     List_replaceContent index 0 objs s =
       (None, s\<lparr>ops := ops s @ map (\<lambda>object. PushSet r (getFirebaseValue object)) objs\<rparr>)"
  by (auto simp: List_replaceContent_def slice_in_range slice_empty)

theorem replaceContent_ops_witness:
  "List_replaceContent 1 2 [Num 7, ToJSON (Str ''x'')]
      \<lparr>ref = Some (Location ''r''), content = [Num 1, Num 2, Num 3],
       names = [''a'', ''b'', ''c''], members = {}, ops = []\<rparr>
   = (None, \<lparr>ref = Some (Location ''r''), content = [Num 1, Num 2, Num 3],
       names = [''a'', ''b'', ''c''], members = {},
       ops = [Remove ''r'' ''b'', Remove ''r'' ''c'', PushSet ''r'' (Num 7),
              PushSet ''r'' (Str ''x'')]\<rparr>)"
  using replaceContent_ops
    [of "\<lparr>ref = Some (Location ''r''), content = [Num 1, Num 2, Num 3],
         names = [''a'', ''b'', ''c''], members = {}, ops = []\<rparr>" "''r''" 1 2
        "[Num 7, ToJSON (Str ''x'')]"]
  by (simp add: baseRef_def)

section \<open>Firebase.Array: the reserved child\<close>

lemma set_assign: "set (assign xs i v) \<subseteq> insert v (set xs)"
  using set_update_subset_insert [of xs i v] by (auto simp: assign_def)

lemma set_splice_remove: "set (splice_js i n [] xs) \<subseteq> set xs"
  by (auto simp: splice_js_def dest: in_set_takeD in_set_dropD)

lemma Array_marker_ignored: "eventName e = ''_isArray'' \<Longrightarrow> Array_on e s = (None, s)"
  by (cases e)
     (simp_all add: Array_childWasAdded_def Array_childWasChanged_def
        Array_childWasRemoved_def Array_childWasMoved_def)

lemma Array_childWasAdded_names:
  "set (names (snd (Array_childWasAdded snap p s))) \<subseteq> insert (sname snap) (set (names s))"
  using set_assign [of "names s" _ "sname snap"]
  by (auto simp: Array_childWasAdded_def Let_def split: prod.splits if_splits)

lemma Array_childWasChanged_names:
  "set (names (snd (Array_childWasChanged snap p s))) \<subseteq> insert (sname snap) (set (names s))"
  using set_assign [of "names s" _ "sname snap"]
  by (auto simp: Array_childWasChanged_def Let_def split: prod.splits if_splits)

lemma Array_childWasRemoved_names:
  "set (names (snd (Array_childWasRemoved snap s))) \<subseteq> set (names s)"
  using set_splice_remove [of _ 1 "names s"]
  by (auto simp: Array_childWasRemoved_def Let_def split: if_splits)

lemma Array_childWasMoved_names:
  "set (names (snd (Array_childWasMoved snap p s))) \<subseteq> insert (sname snap) (set (names s))"
proof (cases "Array_childWasRemoved snap s")
  case (Pair err s1)
  have r: "set (names s1) \<subseteq> set (names s)"
    using Array_childWasRemoved_names [of snap s] Pair by simp
  have a: "set (names (snd (Array_childWasAdded snap p s1))) \<subseteq> insert (sname snap) (set (names s1))"
    by (rule Array_childWasAdded_names)
  show ?thesis
  proof (cases "sname snap = ''_isArray''")
    case True
    then show ?thesis by (auto simp: Array_childWasMoved_def)
  next
    case False
    then show ?thesis using Pair r a
      by (cases err) (auto simp: Array_childWasMoved_def)
  qed
qed

lemma Array_on_names:
  "set (names (snd (Array_on e s))) \<subseteq> insert (eventName e) (set (names s))"
  by (cases e)
     (simp_all add: Array_childWasAdded_names Array_childWasChanged_names
        Array_childWasMoved_names subset_insertI2 Array_childWasRemoved_names)

lemma Array_deliver_skips_marker:
  "Array_deliver es s = Array_deliver (filter (\<lambda>e. eventName e \<noteq> ''_isArray'') es) s"
  by (induction es arbitrary: s) (simp_all add: Array_deliver_def Array_marker_ignored)

text \<open>
  C9. A child event of \<^verbatim>\<open>Firebase.Array\<close> whose child is named \<^verbatim>\<open>_isArray\<close> changes
  neither \<^verbatim>\<open>content\<close> nor \<^verbatim>\<open>_names\<close> (nor anything else of the proxy), whichever of the
  four events it is. The marker never enters \<^verbatim>\<open>_names\<close>, the array every index is
  computed from, and a stream of events leaves the proxy as the same stream without the
  marker's events does.
\<close>

theorem marker_events_ignored:
  "(eventName e = ''_isArray'' \<longrightarrow> Array_on e s = (None, s)) \<and>
   (''_isArray'' \<notin> set (names s) \<longrightarrow> ''_isArray'' \<notin> set (names (snd (Array_on e s)))) \<and>
   Array_deliver es s = Array_deliver (filter (\<lambda>e. eventName e \<noteq> ''_isArray'') es) s"
proof (intro conjI impI)
  assume "eventName e = ''_isArray''"
  then show "Array_on e s = (None, s)" by (rule Array_marker_ignored)
next
  assume free: "''_isArray'' \<notin> set (names s)"
  show "''_isArray'' \<notin> set (names (snd (Array_on e s)))"
  proof (cases "eventName e = ''_isArray''")
    case True
    then show ?thesis using free by (simp add: Array_marker_ignored)
  next
    case False
    then show ?thesis using free Array_on_names [of e s] by auto
  qed
next
  show "Array_deliver es s = Array_deliver (filter (\<lambda>e. eventName e \<noteq> ''_isArray'') es) s"
    by (rule Array_deliver_skips_marker)
qed

theorem marker_events_ignored_witness:
  "Array_on (ChildAdded (leaf ''_isArray'' (Bool True)) (Some ''a''))
      \<lparr>ref = Some (Location ''r''), content = [Plain (Num 1)], names = [''a''],
       members = {}, ops = []\<rparr>
     = (None, \<lparr>ref = Some (Location ''r''), content = [Plain (Num 1)], names = [''a''],
               members = {}, ops = []\<rparr>) \<and>
   ''_isArray'' \<notin> set (names (snd (Array_on (ChildAdded (leaf ''b'' (Num 2)) (Some ''a''))
      \<lparr>ref = Some (Location ''r''), content = [Plain (Num 1)], names = [''a''],
       members = {}, ops = []\<rparr>))) \<and>
   Array_deliver [ChildChanged (leaf ''_isArray'' (Bool True)) (Some ''a''),
                  ChildAdded (leaf ''b'' (Num 2)) (Some ''a'')]
      \<lparr>ref = Some (Location ''r''), content = [Plain (Num 1)], names = [''a''],
       members = {}, ops = []\<rparr>
     = Array_deliver [ChildAdded (leaf ''b'' (Num 2)) (Some ''a'')]
      \<lparr>ref = Some (Location ''r''), content = [Plain (Num 1)], names = [''a''],
       members = {}, ops = []\<rparr>"
  using marker_events_ignored
      [of "ChildAdded (leaf ''_isArray'' (Bool True)) (Some ''a'')"
          "\<lparr>ref = Some (Location ''r''), content = [Plain (Num 1)], names = [''a''],
            members = {}, ops = []\<rparr>"
          "[ChildChanged (leaf ''_isArray'' (Bool True)) (Some ''a''),
            ChildAdded (leaf ''b'' (Num 2)) (Some ''a'')]"]
    marker_events_ignored
      [of "ChildAdded (leaf ''b'' (Num 2)) (Some ''a'')"
          "\<lparr>ref = Some (Location ''r''), content = [Plain (Num 1)], names = [''a''],
            members = {}, ops = []\<rparr>" "[]"]
  by (simp add: leaf_def)

text \<open>
  \<^verbatim>\<open>Firebase.List\<close>, the later proxy, neither writes nor skips the marker: a child of
  that name is a child like any other.
\<close>

lemma List_has_no_reserved_child:
  "names (List_on (ChildAdded (leaf ''_isArray'' (Bool True)) None) (List_create r K))
     = [''_isArray'']"
  by (simp add: List_create_def leaf_def List_childWasAdded_def indexAfter_def assign_def Let_def)

section \<open>Firebase.Binding: scheduling and the checkpoint\<close>

lemma flush_Nil: "syncQueue s = [] \<Longrightarrow> Binding_flush s = (None, s)"
  by (subst Binding_flush.simps) simp

lemma flush_throw:
  assumes "syncQueue s = (object, snapshot) # rest"
    and "Binding_sync object snapshot (s\<lparr>syncQueue := []\<rparr>) = (Some e, t)"
  shows "Binding_flush s = (Some e, t)"
  using assms by (subst Binding_flush.simps) simp

lemma flush_step:
  assumes q: "syncQueue s = (object, snapshot) # rest"
    and run: "Binding_sync object snapshot (s\<lparr>syncQueue := []\<rparr>) = (None, t)"
    and empty: "syncQueue t = []"
  shows "Binding_flush s = Binding_flush (t\<lparr>syncQueue := rest\<rparr>)"
proof -
  have t: "t\<lparr>syncQueue := []\<rparr> = t" using empty by simp
  have left: "Binding_flush s =
      (case runScheduled rest t of (Some e, s1) \<Rightarrow> (Some e, s1) | (None, s1) \<Rightarrow> Binding_flush s1)"
    using q run by (subst Binding_flush.simps) simp
  show ?thesis
  proof (cases rest)
    case Nil
    then show ?thesis using left t by (simp add: flush_Nil empty)
  next
    case (Cons entry more)
    then have "Binding_flush (t\<lparr>syncQueue := rest\<rparr>) =
      (case runScheduled rest t of (Some e, s1) \<Rightarrow> (Some e, s1) | (None, s1) \<Rightarrow> Binding_flush s1)"
      using t by (subst Binding_flush.simps) simp
    then show ?thesis using left by simp
  qed
qed

lemma scheduleSync_Pull_directionMap:
  "directionMap (Binding_scheduleSync Pull object snapshot s) = (directionMap s)(object \<mapsto> Pull)"
proof (cases "directionMap s object")
  case None
  then show ?thesis by (simp add: Binding_scheduleSync_def)
next
  case (Some d)
  then show ?thesis by (cases d) (auto simp: Binding_scheduleSync_def)
qed

lemma scheduleSync_objects: "objects (Binding_scheduleSync d object snapshot s) = objects s"
  by (simp add: Binding_scheduleSync_def Let_def)

lemma pull_all_directionMap:
  "directionMap (foldl (\<lambda>t object. Binding_scheduleSync Pull object snapshot t) s xs) x =
     (if x \<in> set xs then Some Pull else directionMap s x)"
  by (induction xs arbitrary: s) (simp_all add: scheduleSync_Pull_directionMap)

lemma refDidChange_directionMap:
  "\<not> ignoreRefChanges s \<Longrightarrow>
   directionMap (Binding_refDidChange v s) x =
     (if x \<in> set (objects s) then Some Pull else directionMap s x)"
  by (simp add: Binding_refDidChange_def pull_all_directionMap)

lemma push_over_pull_unchanged:
  "directionMap s object = Some Pull \<Longrightarrow> Binding_scheduleSync Push object None s = s"
  by (simp add: Binding_scheduleSync_def)

lemma pull_over_push_keeps_entry:
  "directionMap s object = Some Push \<Longrightarrow>
   Binding_scheduleSync Pull object (Some v) s = s\<lparr>directionMap := (directionMap s)(object \<mapsto> Pull)\<rparr>"
  by (simp add: Binding_scheduleSync_def)

lemma sync_pull:
  "\<not> isDestroyed s object \<Longrightarrow> directionMap s object = Some Pull \<Longrightarrow> \<not> oneWay s \<Longrightarrow>
   Binding_sync object (Some v) s =
     (None, s\<lparr>directionMap := (directionMap s)(object := None),
              pathValue := (pathValue s)(object := v),
              pathSets := pathSets s @ [(object, v)]\<rparr>)"
  by (simp add: Binding_sync_def trySet_def Let_def)

lemma sync_pull_without_snapshot:
  "\<not> isDestroyed s object \<Longrightarrow> directionMap s object = Some Pull \<Longrightarrow>
   Binding_sync object None s =
     (Some TypeError, s\<lparr>directionMap := (directionMap s)(object := None)\<rparr>)"
  by (simp add: Binding_sync_def)

lemma pull_then_push_applies_pull:
  assumes "\<not> isDestroyed s object" and "\<not> oneWay s"
    and "directionMap s object = Some Pull" and "syncQueue s = (object, Some v) # rest"
  shows "Binding_flush (Binding_pathDidChange object s) =
           Binding_flush (s\<lparr>syncQueue := rest,
                            directionMap := (directionMap s)(object := None),
                            pathValue := (pathValue s)(object := v),
                            pathSets := pathSets s @ [(object, v)]\<rparr>)"
proof -
  have same: "Binding_pathDidChange object s = s"
    using assms(3) by (simp add: Binding_pathDidChange_def push_over_pull_unchanged)
  have "Binding_sync object (Some v) (s\<lparr>syncQueue := []\<rparr>) =
      (None, s\<lparr>syncQueue := [],
               directionMap := (directionMap s)(object := None),
               pathValue := (pathValue s)(object := v),
               pathSets := pathSets s @ [(object, v)]\<rparr>)"
    using assms(1-3) sync_pull [of "s\<lparr>syncQueue := []\<rparr>" object v] by simp
  then show ?thesis unfolding same using flush_step [OF assms(4)] by simp
qed

text \<open>
  C2. When a push and a pull are both requested for a connected object before the
  checkpoint, in either order, the checkpoint is to apply one sync for it, a pull that
  writes the remote value to the path, and to clear the pending direction. Requested as
  pull then push this is what happens (\<open>pull_then_push_applies_pull\<close>).
  Requested as push then pull, the queued call keeps the missing snapshot argument of
  the push while the direction becomes pull (\<open>pull_over_push_keeps_entry\<close>), and the
  checkpoint throws a \<^verbatim>\<open>TypeError\<close> without writing the path: the local write of \<open>5\<close>
  followed by the remote value \<open>7\<close>.
\<close>

theorem push_then_pull_throws:
  "(let s0 = Binding_connect 1 (Binding_new (\<lambda>object. False) (\<lambda>object. Num 5) (Num 5));
        s1 = Binding_pathDidChange 1 s0;
        s2 = Binding_refDidChange (Num 7) s1
    in directionMap s1 1 = Some Push \<and> syncQueue s1 = [(1, None)] \<and>
       directionMap s2 1 = Some Pull \<and> syncQueue s2 = [(1, None)] \<and>
       fst (Binding_flush s2) = Some TypeError \<and>
       pathSets (snd (Binding_flush s2)) = [] \<and>
       pathValue (snd (Binding_flush s2)) 1 = Num 5 \<and>
       directionMap (snd (Binding_flush s2)) 1 = None)"
proof -
  define s0 where "s0 = Binding_connect 1 (Binding_new (\<lambda>object. False) (\<lambda>object. Num 5) (Num 5))"
  define s1 where "s1 = Binding_pathDidChange 1 s0"
  define s2 where "s2 = Binding_refDidChange (Num 7) s1"
  have f0: "objects s0 = [1]" "directionMap s0 1 = None" "syncQueue s0 = []"
    "\<not> ignoreRefChanges s0" "\<not> isDestroyed s0 1" "pathSets s0 = []" "pathValue s0 1 = Num 5"
    by (simp_all add: s0_def Binding_connect_def Binding_new_def Let_def)
  have f1: "objects s1 = [1]" "directionMap s1 1 = Some Push" "syncQueue s1 = [(1, None)]"
    "\<not> ignoreRefChanges s1" "\<not> isDestroyed s1 1" "pathSets s1 = []" "pathValue s1 1 = Num 5"
    using f0 by (simp_all add: s1_def Binding_pathDidChange_def Binding_scheduleSync_def Let_def)
  have e2: "s2 = s1\<lparr>directionMap := (directionMap s1)(1 \<mapsto> Pull)\<rparr>"
    using f1 by (simp add: s2_def Binding_refDidChange_def pull_over_push_keeps_entry)
  have f2: "directionMap s2 1 = Some Pull" "syncQueue s2 = [(1, None)]"
    "\<not> isDestroyed s2 1" "pathSets s2 = []" "pathValue s2 1 = Num 5"
    using f1 by (simp_all add: e2)
  have "Binding_sync 1 None (s2\<lparr>syncQueue := []\<rparr>) =
      (Some TypeError, s2\<lparr>syncQueue := [], directionMap := (directionMap s2)(1 := None)\<rparr>)"
    using f2 sync_pull_without_snapshot [of "s2\<lparr>syncQueue := []\<rparr>" 1] by simp
  then have fl: "Binding_flush s2 =
      (Some TypeError, s2\<lparr>syncQueue := [], directionMap := (directionMap s2)(1 := None)\<rparr>)"
    using flush_throw [OF f2(2)] by simp
  show ?thesis
    unfolding Let_def s0_def [symmetric] s1_def [symmetric] s2_def [symmetric] fl
    using f1 f2 by simp
qed

text \<open>
  C3. A push applied at the checkpoint issues one remote write; the echo the service
  delivers during the call is ignored, so the call schedules nothing and leaves the rest
  of the queue as it was. The echo is ignored during the call only: the next remote
  notification schedules a pull for every connected object.
\<close>

theorem push_echo_ignored:
  assumes alive: "\<not> isDestroyed s object" and push: "directionMap s object = Some Push"
  shows "(let s1 = s\<lparr>directionMap := (directionMap s)(object := None),
                     ignoreRefChanges := False,
                     refValue := getFirebaseValue (pathValue s object),
                     refSets := refSets s @ [getFirebaseValue (pathValue s object)]\<rparr>
          in Binding_sync object snapshot s = (None, s1) \<and>
             (syncQueue s = (object, snapshot) # rest \<longrightarrow>
                Binding_flush s = Binding_flush (s1\<lparr>syncQueue := rest\<rparr>)) \<and>
             (\<forall>x \<in> set (objects s). directionMap (Binding_refDidChange v s1) x = Some Pull))"
proof -
  let ?s1 = "s\<lparr>directionMap := (directionMap s)(object := None),
               ignoreRefChanges := False,
               refValue := getFirebaseValue (pathValue s object),
               refSets := refSets s @ [getFirebaseValue (pathValue s object)]\<rparr>"
  have run: "Binding_sync object snapshot s = (None, ?s1)"
    using alive push by (rule sync_push)
  have step: "Binding_flush s = Binding_flush (?s1\<lparr>syncQueue := rest\<rparr>)"
    if q: "syncQueue s = (object, snapshot) # rest"
  proof -
    have "Binding_sync object snapshot (s\<lparr>syncQueue := []\<rparr>) = (None, ?s1\<lparr>syncQueue := []\<rparr>)"
      using alive push sync_push [of "s\<lparr>syncQueue := []\<rparr>" object snapshot] by simp
    then show ?thesis using flush_step [OF q, of "?s1\<lparr>syncQueue := []\<rparr>"] by simp
  qed
  have later: "\<forall>x \<in> set (objects s). directionMap (Binding_refDidChange v ?s1) x = Some Pull"
    by (simp add: refDidChange_directionMap)
  show ?thesis unfolding Let_def using run step later by blast
qed

theorem push_echo_ignored_witness:
  "(let s = Binding_pathDidChange 1
              (Binding_connect 1 (Binding_new (\<lambda>object. False) (\<lambda>object. Num 5) Null))
    in fst (Binding_flush s) = None \<and>
       refSets (snd (Binding_flush s)) = [Num 5] \<and>
       syncQueue (snd (Binding_flush s)) = [] \<and>
       directionMap (snd (Binding_flush s)) 1 = None \<and>
       \<not> ignoreRefChanges (snd (Binding_flush s)))"
proof -
  define s where "s = Binding_pathDidChange 1
      (Binding_connect 1 (Binding_new (\<lambda>object. False) (\<lambda>object. Num 5) Null))"
  have f: "\<not> isDestroyed s 1" "directionMap s 1 = Some Push" "syncQueue s = [(1, None)]"
    "refSets s = []" "pathValue s 1 = Num 5" "objects s = [1]"
    by (simp_all add: s_def Binding_pathDidChange_def Binding_scheduleSync_def
          Binding_connect_def Binding_new_def Let_def)
  have "Binding_flush s =
      Binding_flush (s\<lparr>directionMap := (directionMap s)(1 := None), ignoreRefChanges := False,
                       refValue := Num 5, refSets := [Num 5], syncQueue := []\<rparr>)"
    using push_echo_ignored [OF f(1) f(2), of None "[]"] f by (simp add: Let_def)
  then have "Binding_flush s =
      (None, s\<lparr>directionMap := (directionMap s)(1 := None), ignoreRefChanges := False,
               refValue := Num 5, refSets := [Num 5], syncQueue := []\<rparr>)"
    by (simp add: flush_Nil)
  then show ?thesis unfolding Let_def s_def [symmetric] by simp
qed

text \<open>
  C10. A scheduled sync for an object whose \<^verbatim>\<open>isDestroyed\<close> flag is set returns at
  once: nothing is written to the path or to the remote location, and the state is the
  one before the call; the checkpoint goes on with the rest of the queue.
\<close>

theorem sync_skips_destroyed:
  assumes "isDestroyed s object"
  shows "Binding_sync object snapshot s = (None, s) \<and>
         (syncQueue s = (object, snapshot) # rest \<longrightarrow>
            Binding_flush s = Binding_flush (s\<lparr>syncQueue := rest\<rparr>))"
proof
  show run: "Binding_sync object snapshot s = (None, s)"
    using assms by (simp add: Binding_sync_def)
  show "syncQueue s = (object, snapshot) # rest \<longrightarrow>
          Binding_flush s = Binding_flush (s\<lparr>syncQueue := rest\<rparr>)"
  proof
    assume q: "syncQueue s = (object, snapshot) # rest"
    have "isDestroyed (s\<lparr>syncQueue := []\<rparr>) object" using assms by simp
    then have "Binding_sync object snapshot (s\<lparr>syncQueue := []\<rparr>) = (None, s\<lparr>syncQueue := []\<rparr>)"
      by (simp add: Binding_sync_def)
    then show "Binding_flush s = Binding_flush (s\<lparr>syncQueue := rest\<rparr>)"
      using flush_step [OF q, of "s\<lparr>syncQueue := []\<rparr>"] by simp
  qed
qed

theorem sync_skips_destroyed_witness:
  "(let s = Binding_refDidChange (Num 7)
              (Binding_connect 1 (Binding_new (\<lambda>object. object = 1) (\<lambda>object. Num 5) (Num 5)))
    in syncQueue s = [(1, Some (Num 7))] \<and>
       Binding_sync 1 (Some (Num 7)) s = (None, s) \<and>
       Binding_flush s = (None, s\<lparr>syncQueue := []\<rparr>) \<and>
       pathSets (snd (Binding_flush s)) = [] \<and>
       refSets (snd (Binding_flush s)) = [] \<and>
       pathValue (snd (Binding_flush s)) 1 = Num 5)"
proof -
  define s where "s = Binding_refDidChange (Num 7)
      (Binding_connect 1 (Binding_new (\<lambda>object. object = 1) (\<lambda>object. Num 5) (Num 5)))"
  have f: "isDestroyed s 1" "syncQueue s = [(1, Some (Num 7))]" "pathSets s = []"
    "refSets s = []" "pathValue s 1 = Num 5"
    by (simp_all add: s_def Binding_refDidChange_def Binding_scheduleSync_def
          Binding_connect_def Binding_new_def Let_def)
  have "Binding_sync 1 (Some (Num 7)) s = (None, s)"
    and "Binding_flush s = Binding_flush (s\<lparr>syncQueue := []\<rparr>)"
    using sync_skips_destroyed [OF f(1), of "Some (Num 7)" "[]"] f(2) by simp_all
  then show ?thesis unfolding Let_def s_def [symmetric] using f by (simp add: flush_Nil)
qed

end
